theory Spec2Isabelle
  imports Main "HOL-Library.Word"
begin

unbundle bit_operations_syntax

section \<open>The IRC socket of \<^verbatim>\<open>irc/socket.go\<close>\<close>

text \<open>
  The file \<^verbatim>\<open>irc/socket.go\<close> wraps one network connection: \<^verbatim>\<open>Read\<close> returns
  one line, \<^verbatim>\<open>Write\<close> queues a string, \<^verbatim>\<open>RunSocketWriter\<close> is the task that
  drains the queue to the connection and finally closes it, \<^verbatim>\<open>CertFP\<close> is the
  fingerprint of the peer's certificate.

  Go strings and byte slices are sequences of bytes: a \<open>string\<close> here is a list of
  8-bit \<open>char\<close>s, a \<^verbatim>\<open>[]byte\<close> a list of \<open>8 word\<close>. A Go \<^verbatim>\<open>error\<close> is a value of
  \<open>error\<close>, and \<^verbatim>\<open>nil\<close> is \<open>None\<close> of \<open>error option\<close>.
\<close>

subsection \<open>Errors, the connection, the socket\<close>

type_synonym byte = "8 word"

abbreviation CR :: char where "CR \<equiv> CHR 0x0D"
abbreviation LF :: char where "LF \<equiv> CHR 0x0A"

text \<open>
  \<^verbatim>\<open>io.EOF\<close>, the two errors the file declares, and any other error of the network
  or TLS layer, told apart by its message.
\<close>

datatype error = EOF | errNotTLS | errNoPeerCerts | OtherError string

text \<open>What the calls on a run-time object can do instead of returning.\<close>

datatype fault =
    UnlockOfUnlockedMutex  \<comment> \<open>\<^verbatim>\<open>sync: unlock of unlocked mutex\<close>, a run-time error\<close>
  | LockBlocked            \<comment> \<open>\<^verbatim>\<open>Lock\<close> on a held mutex: the caller waits\<close>

record Certificate =
  Raw :: "byte list"

text \<open>
  A \<^verbatim>\<open>*tls.Conn\<close>: what \<^verbatim>\<open>Handshake()\<close> returns and the certificates the peer
  presented.
\<close>

record TLSConn =
  Handshake :: "error option"
  PeerCertificates :: "Certificate list"

text \<open>The calls the socket makes on its connection, in order.\<close>

datatype conn_call = WriteCall string | CloseCall

text \<open>
  A \<^verbatim>\<open>net.Conn\<close>. \<open>tls\<close> is \<open>Some\<close> when the dynamic type is \<^verbatim>\<open>*tls.Conn\<close>.
  \<open>inbound\<close> are the bytes the peer sends before the stream ends with \<open>inboundEnd\<close>.
  \<open>writeResults\<close> are the results of the coming calls of \<^verbatim>\<open>conn.Write\<close> (a call
  beyond the list succeeds), \<open>calls\<close> the calls made so far and \<open>delivered\<close> the
  bytes of the writes that succeeded.
\<close>

record Conn =
  tls :: "TLSConn option"
  inbound :: string
  inboundEnd :: error
  writeResults :: "error option list"
  calls :: "conn_call list"
  delivered :: string

definition conn_Write :: "Conn \<Rightarrow> string \<Rightarrow> Conn \<times> error option" where
  "conn_Write c data =
     (case writeResults c of
        [] \<Rightarrow> (c\<lparr>calls := calls c @ [WriteCall data], delivered := delivered c @ data\<rparr>, None)
      | None # rs \<Rightarrow>
          (c\<lparr>writeResults := rs, calls := calls c @ [WriteCall data],
             delivered := delivered c @ data\<rparr>, None)
      | Some e # rs \<Rightarrow>
          (c\<lparr>writeResults := rs, calls := calls c @ [WriteCall data]\<rparr>, Some e))"

definition conn_Close :: "Conn \<Rightarrow> Conn" where
  "conn_Close c = c\<lparr>calls := calls c @ [CloseCall]\<rparr>"

text \<open>
  A \<^verbatim>\<open>bufio.Reader\<close> over the connection: the bytes not yet returned, and the error
  the stream gives once they are used up.
\<close>

record Reader =
  unread :: string
  readErr :: error

definition NewReader :: "Conn \<Rightarrow> Reader" where
  "NewReader c = \<lparr>unread = inbound c, readErr = inboundEnd c\<rparr>"

text \<open>
  \<^verbatim>\<open>ReadBytes(delim)\<close>: the bytes up to and including the first \<open>delim\<close>; when the
  stream ends before one, the bytes read so far together with the error.
\<close>

definition ReadBytes :: "Reader \<Rightarrow> char \<Rightarrow> Reader \<times> string \<times> error option" where
  "ReadBytes r delim =
     (if delim \<in> set (unread r)
      then (r\<lparr>unread := tl (dropWhile (\<lambda>c. c \<noteq> delim) (unread r))\<rparr>,
            takeWhile (\<lambda>c. c \<noteq> delim) (unread r) @ [delim], None)
      else (r\<lparr>unread := []\<rparr>, unread r, Some (readErr r)))"

text \<open>
  The \<^verbatim>\<open>Socket\<close> struct. \<open>linesToSendMutex\<close> is \<open>True\<close> while the mutex is held.
  \<open>lineToSendExists\<close> is an unbuffered channel: the model keeps the timeouts (in
  milliseconds) of the detached senders started on it with
  \<^verbatim>\<open>go socket.timedFillLineToSendExists(d)\<close>; whether one of them hands its signal
  over is the scheduler's choice.
\<close>

record Socket =
  Closed :: bool
  conn :: Conn
  reader :: Reader
  MaxSendQBytes :: "64 word"
  FinalData :: string
  lineToSendExists :: "nat list"
  linesToSend :: "string list"
  linesToSendMutex :: bool

definition NewSocket :: "Conn \<Rightarrow> 64 word \<Rightarrow> Socket" where
  "NewSocket c maxSendQBytes =
     \<lparr>Closed = False, conn = c, reader = NewReader c, MaxSendQBytes = maxSendQBytes,
      FinalData = [], lineToSendExists = [], linesToSend = [], linesToSendMutex = False\<rparr>"

definition Lock :: "Socket \<Rightarrow> (fault \<times> Socket) + Socket" where
  "Lock s = (if linesToSendMutex s then Inl (LockBlocked, s)
             else Inr (s\<lparr>linesToSendMutex := True\<rparr>))"

definition Unlock :: "Socket \<Rightarrow> (fault \<times> Socket) + Socket" where
  "Unlock s = (if linesToSendMutex s then Inr (s\<lparr>linesToSendMutex := False\<rparr>)
               else Inl (UnlockOfUnlockedMutex, s))"

text \<open>\<^verbatim>\<open>go socket.timedFillLineToSendExists(duration)\<close>: the caller does not wait.\<close>

definition go_timedFillLineToSendExists :: "nat \<Rightarrow> Socket \<Rightarrow> Socket" where
  "go_timedFillLineToSendExists ms s = s\<lparr>lineToSendExists := lineToSendExists s @ [ms]\<rparr>"

subsection \<open>Close and Write\<close>

definition Close :: "Socket \<Rightarrow> Socket" where
  "Close s =
     (if Closed s then s
      else go_timedFillLineToSendExists 200 (s\<lparr>Closed := True\<rparr>))"

definition Write :: "Socket \<Rightarrow> string \<Rightarrow> (fault \<times> Socket) + (Socket \<times> error option)" where
  "Write s data =
     (if Closed s then Inr (s, Some EOF)
      else case Lock s of
        Inl f \<Rightarrow> Inl f
      | Inr s1 \<Rightarrow>
          (case Unlock (s1\<lparr>linesToSend := linesToSend s1 @ [data]\<rparr>) of
             Inl f \<Rightarrow> Inl f
           | Inr s2 \<Rightarrow>
               Inr (if \<not> Closed s2 then go_timedFillLineToSendExists 15000 s2 else s2, None)))"

definition WriteLine :: "Socket \<Rightarrow> string \<Rightarrow> (fault \<times> Socket) + (Socket \<times> error option)" where
  "WriteLine s line = Write s (line @ [CR, LF])"

subsection \<open>Read\<close>

text \<open>
  \<^verbatim>\<open>strings.TrimSpace\<close> removes the leading and the trailing white-space runes of a
  string, white space as Unicode has it. \<open>spaceRunes\<close> are their UTF-8 encodings:
  the six of ASCII, U+0085, U+00A0, U+1680, U+2000 to U+200A, U+2028, U+2029, U+202F,
  U+205F and U+3000. No encoding is the beginning or the end of another, so the rune
  at either end of a string is white space exactly when one of them is there.
\<close>

definition spaceRunes :: "string list" where
  "spaceRunes =
     [[CHR 0x09], [LF], [CHR 0x0B], [CHR 0x0C], [CR], [CHR 0x20],
      [CHR 0xC2, CHR 0x85], [CHR 0xC2, CHR 0xA0],
      [CHR 0xE1, CHR 0x9A, CHR 0x80],
      [CHR 0xE2, CHR 0x80, CHR 0x80], [CHR 0xE2, CHR 0x80, CHR 0x81],
      [CHR 0xE2, CHR 0x80, CHR 0x82], [CHR 0xE2, CHR 0x80, CHR 0x83],
      [CHR 0xE2, CHR 0x80, CHR 0x84], [CHR 0xE2, CHR 0x80, CHR 0x85],
      [CHR 0xE2, CHR 0x80, CHR 0x86], [CHR 0xE2, CHR 0x80, CHR 0x87],
      [CHR 0xE2, CHR 0x80, CHR 0x88], [CHR 0xE2, CHR 0x80, CHR 0x89],
      [CHR 0xE2, CHR 0x80, CHR 0x8A],
      [CHR 0xE2, CHR 0x80, CHR 0xA8], [CHR 0xE2, CHR 0x80, CHR 0xA9],
      [CHR 0xE2, CHR 0x80, CHR 0xAF],
      [CHR 0xE2, CHR 0x81, CHR 0x9F],
      [CHR 0xE3, CHR 0x80, CHR 0x80]]"

text \<open>\<open>trimRunes ws s\<close> drops from the front of \<open>s\<close> every rune encoded in \<open>ws\<close>.\<close>

fun trimRunes :: "string list \<Rightarrow> string \<Rightarrow> string" where
  "trimRunes ws [] = []"
| "trimRunes ws (c # cs) =
     (case find (\<lambda>w. w \<noteq> [] \<and> take (length w) (c # cs) = w) ws of
        None \<Rightarrow> c # cs
      | Some w \<Rightarrow> trimRunes ws (drop (length w - 1) cs))"

definition TrimSpace :: "string \<Rightarrow> string" where
  "TrimSpace s = rev (trimRunes (map rev spaceRunes) (rev (trimRunes spaceRunes s)))"

text \<open>
  \<^verbatim>\<open>strings.TrimRight(s, cutset)\<close> for a cutset of ASCII characters, each one byte.
\<close>

definition TrimRight :: "string \<Rightarrow> string \<Rightarrow> string" where
  "TrimRight s cutset = rev (dropWhile (\<lambda>c. c \<in> set cutset) (rev s))"

text \<open>\<^verbatim>\<open>Read\<close> returns the socket as it leaves it, the line and the error.\<close>

definition Read :: "Socket \<Rightarrow> Socket \<times> string \<times> error option" where
  "Read s =
     (if Closed s then (s, [], Some EOF)
      else
        let (r, lineBytes, err) = ReadBytes (reader s) LF;
            s1 = s\<lparr>reader := r\<rparr>;
            line = lineBytes;
            s2 = (if err = Some EOF then Close s1 else s1)
        in if err = Some EOF \<and> TrimSpace line \<noteq> [] then (s2, TrimRight line [CR, LF], None)
           else if err \<noteq> None then (s2, [], err)
           else (s2, TrimRight line [CR, LF], None))"

subsection \<open>RunSocketWriter\<close>

text \<open>A step that did not fault is followed by the next one.\<close>

definition andThen :: "'f + 'a \<Rightarrow> ('a \<Rightarrow> 'f + 'b) \<Rightarrow> 'f + 'b" where
  "andThen m k = (case m of Inl f \<Rightarrow> Inl f | Inr x \<Rightarrow> k x)"

text \<open>
  The \<^verbatim>\<open>range\<close> loop of the sendq check. \<open>sendQBytes\<close> is a \<^verbatim>\<open>uint64\<close> and the sum
  wraps around. On a breach the loop unlocks the mutex and its \<^verbatim>\<open>break\<close> leaves the
  \<^verbatim>\<open>range\<close> loop only.
\<close>

fun checkSendQ :: "string list \<Rightarrow> 64 word \<Rightarrow> Socket \<Rightarrow> (fault \<times> Socket) + (64 word \<times> Socket)" where
  "checkSendQ [] sendQBytes s = Inr (sendQBytes, s)"
| "checkSendQ (line # rest) sendQBytes s =
     (let sendQBytes' = sendQBytes + word_of_nat (length line)
      in if MaxSendQBytes s < sendQBytes'
         then andThen (Unlock s) (\<lambda>s'. Inr (sendQBytes', s'))
         else checkSendQ rest sendQBytes' s)"

text \<open>
  How the body of the \<^verbatim>\<open>select\<close> case ends: with \<^verbatim>\<open>continue\<close>, which starts the next
  iteration of the \<^verbatim>\<open>for\<close> loop at once, or at the end of the \<^verbatim>\<open>select\<close> (a \<^verbatim>\<open>break\<close>
  inside a \<^verbatim>\<open>select\<close> leaves the \<^verbatim>\<open>select\<close>, not the \<^verbatim>\<open>for\<close> around it).
\<close>

datatype flow = ContinueLoop | EndSelect

abbreviation sendQExceeded :: string where
  "sendQExceeded \<equiv> [CR, LF] @ ''ERROR :SendQ Exceeded'' @ [CR, LF]"

text \<open>
  The body of \<^verbatim>\<open>case <-socket.lineToSendExists\<close>, from the variable \<open>errOut\<close> and the
  socket to the way it ends, \<open>errOut\<close> and the socket.
\<close>

definition onLineToSendExists :: "bool \<Rightarrow> Socket \<Rightarrow> (fault \<times> Socket) + (flow \<times> bool \<times> Socket)" where
  "onLineToSendExists errOut s =
     andThen (Lock s) (\<lambda>s1.
       if Closed s1 then andThen (Unlock s1) (\<lambda>s2. Inr (EndSelect, errOut, s2))
       else if length (linesToSend s1) < 1
       then andThen (Unlock s1) (\<lambda>s2. Inr (ContinueLoop, errOut, s2))
       else andThen (checkSendQ (linesToSend s1) 0 s1) (\<lambda>(sendQBytes, s2).
         if MaxSendQBytes s2 < sendQBytes
         then andThen (Unlock (s2\<lparr>FinalData := sendQExceeded\<rparr>))
                (\<lambda>s3. Inr (EndSelect, errOut, s3))
         else
           let data = concat (linesToSend s2);
               s3 = s2\<lparr>linesToSend := []\<rparr>
           in andThen (Unlock s3) (\<lambda>s4.
                if 0 < length data
                then (let (c, err) = conn_Write (conn s4) data;
                          s5 = s4\<lparr>conn := c\<rparr>
                      in if err \<noteq> None then Inr (EndSelect, True, s5)
                         else Inr (EndSelect, errOut, s5))
                else Inr (EndSelect, errOut, s4))))"

text \<open>
  What follows the \<^verbatim>\<open>for\<close> loop. The last loop of the function runs while
  \<^verbatim>\<open>len(socket.lineToSendExists)\<close> is positive; the channel is unbuffered, its
  \<^verbatim>\<open>len\<close> is 0, and the loop does nothing.
\<close>

definition teardown :: "Socket \<Rightarrow> Socket" where
  "teardown s =
     (let s1 = (if \<not> Closed s then s\<lparr>Closed := True\<rparr> else s);
          s2 = (if 0 < length (FinalData s1)
                then s1\<lparr>conn := fst (conn_Write (conn s1) (FinalData s1))\<rparr> else s1)
      in s2\<lparr>conn := conn_Close (conn s2)\<rparr>)"

text \<open>
  The loop waits in \<^verbatim>\<open>select\<close> for a signal. What happens meanwhile is given by a list
  of events: the calls other tasks make on the socket, and \<open>Wake\<close>, the arrival of a
  signal. Other tasks run while the loop waits, not inside an iteration.
\<close>

datatype event = Wake | CallWrite string | CallClose | CallRead

text \<open>
  \<open>Returned\<close>: the function returned, leaving this socket. \<open>Waiting\<close>: the events are
  used up and the loop waits in \<^verbatim>\<open>select\<close>. \<open>Faulted\<close>: a run-time error ended the run.
\<close>

datatype run = Returned Socket | Waiting Socket | Faulted fault Socket

fun writerLoop :: "bool \<Rightarrow> event list \<Rightarrow> Socket \<Rightarrow> run" where
  "writerLoop errOut [] s = Waiting s"
| "writerLoop errOut (Wake # es) s =
     (case onLineToSendExists errOut s of
        Inl (f, s') \<Rightarrow> Faulted f s'
      | Inr (ContinueLoop, errOut', s') \<Rightarrow> writerLoop errOut' es s'
      | Inr (EndSelect, errOut', s') \<Rightarrow>
          if errOut' \<or> Closed s' then Returned (teardown s')
          else writerLoop errOut' es s')"
| "writerLoop errOut (CallWrite data # es) s =
     (case Write s data of
        Inl (f, s') \<Rightarrow> Faulted f s'
      | Inr (s', _) \<Rightarrow> writerLoop errOut es s')"
| "writerLoop errOut (CallClose # es) s = writerLoop errOut es (Close s)"
| "writerLoop errOut (CallRead # es) s = writerLoop errOut es (fst (Read s))"

definition RunSocketWriter :: "event list \<Rightarrow> Socket \<Rightarrow> run" where
  "RunSocketWriter es s = writerLoop False es s"

subsection \<open>CertFP\<close>

text \<open>
  \<^verbatim>\<open>sha256.Sum256\<close> belongs to Go's standard library and is not among the source
  files; the definitions up to \<open>Sum256\<close> follow FIPS 180-4.

  The constants of FIPS 180-4: the first 32 bits of the fractional parts of the cube
  roots of the first 64 primes, and for the initial hash value those of the square
  roots of the first 8. \<open>root k n\<close> is the largest \<open>r\<close> below \<open>2 ^ 40\<close> with
  \<open>r ^ k \<le> n\<close>, found bit by bit.
\<close>

fun rootBits :: "nat \<Rightarrow> nat \<Rightarrow> nat \<Rightarrow> nat \<Rightarrow> nat" where
  "rootBits k n 0 r = r"
| "rootBits k n (Suc b) r =
     (if (r + 2 ^ b) ^ k \<le> n then rootBits k n b (r + 2 ^ b) else rootBits k n b r)"

definition root :: "nat \<Rightarrow> nat \<Rightarrow> nat" where
  "root k n = rootBits k n 40 0"

definition isPrime :: "nat \<Rightarrow> bool" where
  "isPrime n = (1 < n \<and> list_all (\<lambda>d. n mod d \<noteq> 0) [2..<n])"

definition primes64 :: "nat list" where
  "primes64 = filter isPrime [2..<312]"

definition K256 :: "32 word list" where
  "K256 = map (\<lambda>p. word_of_nat (root 3 (p * 2 ^ 96))) primes64"

type_synonym hash256 =
  "32 word \<times> 32 word \<times> 32 word \<times> 32 word \<times> 32 word \<times> 32 word \<times> 32 word \<times> 32 word"

definition fracSqrt :: "nat \<Rightarrow> 32 word" where
  "fracSqrt p = word_of_nat (root 2 (p * 2 ^ 64))"

definition H256 :: hash256 where
  "H256 = (fracSqrt 2, fracSqrt 3, fracSqrt 5, fracSqrt 7,
           fracSqrt 11, fracSqrt 13, fracSqrt 17, fracSqrt 19)"

definition rotr :: "nat \<Rightarrow> 32 word \<Rightarrow> 32 word" where
  "rotr n x = drop_bit n x OR push_bit (32 - n) x"

definition Ch :: "32 word \<Rightarrow> 32 word \<Rightarrow> 32 word \<Rightarrow> 32 word" where
  "Ch x y z = (x AND y) XOR (NOT x AND z)"

definition Maj :: "32 word \<Rightarrow> 32 word \<Rightarrow> 32 word \<Rightarrow> 32 word" where
  "Maj x y z = (x AND y) XOR (x AND z) XOR (y AND z)"

definition bsig0 :: "32 word \<Rightarrow> 32 word" where
  "bsig0 x = rotr 2 x XOR rotr 13 x XOR rotr 22 x"

definition bsig1 :: "32 word \<Rightarrow> 32 word" where
  "bsig1 x = rotr 6 x XOR rotr 11 x XOR rotr 25 x"

definition ssig0 :: "32 word \<Rightarrow> 32 word" where
  "ssig0 x = rotr 7 x XOR rotr 18 x XOR drop_bit 3 x"

definition ssig1 :: "32 word \<Rightarrow> 32 word" where
  "ssig1 x = rotr 17 x XOR rotr 19 x XOR drop_bit 10 x"

text \<open>
  The message, one byte \<open>0x80\<close>, zero bytes up to 56 modulo 64, and the length of the
  message in bits as 64 bits, the high byte first.
\<close>

definition bytes64 :: "64 word \<Rightarrow> byte list" where
  "bytes64 w = map (\<lambda>i. ucast (drop_bit (8 * i) w)) [7, 6, 5, 4, 3, 2, 1, 0]"

definition padding :: "byte list \<Rightarrow> byte list" where
  "padding m =
     m @ [0x80] @ replicate ((119 - length m mod 64) mod 64) 0
       @ bytes64 (word_of_nat (length m) * 8)"

definition bytes32 :: "32 word \<Rightarrow> byte list" where
  "bytes32 w = map (\<lambda>i. ucast (drop_bit (8 * i) w)) [3, 2, 1, 0]"

fun words32 :: "byte list \<Rightarrow> 32 word list" where
  "words32 (a # b # c # d # rest) =
     (push_bit 24 (ucast a) OR push_bit 16 (ucast b) OR push_bit 8 (ucast c) OR ucast d)
       # words32 rest"
| "words32 _ = []"

definition blocks :: "byte list \<Rightarrow> byte list list" where
  "blocks p = map (\<lambda>i. take 64 (drop (64 * i) p)) [0..<length p div 64]"

text \<open>The message schedule: the 16 words of the block, extended to 64.\<close>

definition schedule :: "32 word list \<Rightarrow> 32 word list" where
  "schedule w16 =
     foldl (\<lambda>w t. w @ [ssig1 (w ! (t - 2)) + w ! (t - 7) + ssig0 (w ! (t - 15)) + w ! (t - 16)])
       w16 [16..<64]"

fun round256 :: "hash256 \<Rightarrow> 32 word \<times> 32 word \<Rightarrow> hash256" where
  "round256 (a, b, c, d, e, f, g, h) (k, w) =
     (let t1 = h + bsig1 e + Ch e f g + k + w;
          t2 = bsig0 a + Maj a b c
      in (t1 + t2, a, b, c, d + t1, e, f, g))"

fun add256 :: "hash256 \<Rightarrow> hash256 \<Rightarrow> hash256" where
  "add256 (a, b, c, d, e, f, g, h) (a', b', c', d', e', f', g', h') =
     (a + a', b + b', c + c', d + d', e + e', f + f', g + g', h + h')"

definition compress :: "hash256 \<Rightarrow> byte list \<Rightarrow> hash256" where
  "compress H block = add256 H (foldl round256 H (zip K256 (schedule (words32 block))))"

fun digest :: "hash256 \<Rightarrow> byte list" where
  "digest (a, b, c, d, e, f, g, h) = concat (map bytes32 [a, b, c, d, e, f, g, h])"

text \<open>
  Modelled from the spec: \<^verbatim>\<open>sha256.Sum256\<close> of Go's standard library, which is not
  among the source files. The spec calls its result the SHA-256 digest: the message
  is padded, its blocks of 64 bytes are compressed one after the other, and the 32
  bytes of the last hash value are returned.
\<close>

definition Sum256 :: "byte list \<Rightarrow> byte list" where
  "Sum256 m = digest (foldl compress H256 (blocks (padding m)))"

text \<open>
  Modelled from the spec: \<^verbatim>\<open>hex.EncodeToString\<close> belongs to Go's standard library and
  is not among the source files. The spec calls its result lowercase hex: two digits
  for each byte, the high half first.
\<close>

definition hextable :: string where
  "hextable = ''0123456789abcdef''"

definition EncodeToString :: "byte list \<Rightarrow> string" where
  "EncodeToString src =
     concat (map (\<lambda>v. [hextable ! unat (drop_bit 4 v), hextable ! unat (v AND 0x0F)]) src)"

text \<open>
  \<^verbatim>\<open>CertFP\<close>. The two calls of \<^verbatim>\<open>SetDeadline\<close> around the handshake bound its time
  and are not part of the model.
\<close>

definition CertFP :: "Socket \<Rightarrow> string \<times> error option" where
  "CertFP s =
     (case tls (conn s) of
        None \<Rightarrow> ([], Some errNotTLS)
      | Some tlsConn \<Rightarrow>
          let err = Handshake tlsConn
          in if err \<noteq> None then ([], err)
             else
               let peerCerts = PeerCertificates tlsConn
               in if length peerCerts < 1 then ([], Some errNoPeerCerts)
                  else
                    let rawCert = Sum256 (Raw (peerCerts ! 0));
                        fingerprint = EncodeToString rawCert
                    in (fingerprint, None))"

subsection \<open>Connections for the examples\<close>

text \<open>
  A plain connection on which the peer sends \<open>bytes\<close> and then ends the stream with
  \<open>e\<close>, and a TLS connection with nothing to read.
\<close>

definition plainConn :: "string \<Rightarrow> error \<Rightarrow> Conn" where
  "plainConn bytes e =
     \<lparr>tls = None, inbound = bytes, inboundEnd = e, writeResults = [], calls = [],
      delivered = []\<rparr>"

definition tlsConn :: "error option \<Rightarrow> Certificate list \<Rightarrow> Conn" where
  "tlsConn hs certs =
     \<lparr>tls = Some \<lparr>Handshake = hs, PeerCertificates = certs\<rparr>, inbound = [], inboundEnd = EOF,
      writeResults = [], calls = [], delivered = []\<rparr>"

section \<open>Properties\<close>

subsection \<open>Close and Write\<close>

lemma Close_unfold:
  "Close s = (if Closed s then s
              else s\<lparr>Closed := True, lineToSendExists := lineToSendExists s @ [200]\<rparr>)"
  by (simp add: Close_def go_timedFillLineToSendExists_def)

text \<open>
  Claim C4. On a closed socket \<^verbatim>\<open>Write\<close> returns \<^verbatim>\<open>io.EOF\<close> and leaves the socket,
  and so the queue, as it is. On a socket that is not closed, called while the mutex
  is free (a call serialized by the lock gets it), \<^verbatim>\<open>Write\<close> returns no error and
  the queue is the old queue with \<open>data\<close> as its last element; the only other change
  is the detached 15-second sender.
\<close>

theorem Write_closed_or_appends:
  "(Closed s \<longrightarrow> Write s data = Inr (s, Some EOF)) \<and>
   (\<not> Closed s \<and> \<not> linesToSendMutex s \<longrightarrow>
      Write s data =
        Inr (s\<lparr>linesToSend := linesToSend s @ [data],
               lineToSendExists := lineToSendExists s @ [15000]\<rparr>, None))"
  by (simp add: Write_def Lock_def Unlock_def go_timedFillLineToSendExists_def)

text \<open>A write on a socket that was closed, and one on a socket with a line queued.\<close>

theorem Write_closed_or_appends_witness:
  "Write (Close (NewSocket (plainConn [] EOF) 512)) ''PING'' =
     Inr (Close (NewSocket (plainConn [] EOF) 512), Some EOF) \<and>
   Write ((NewSocket (plainConn [] EOF) 512)\<lparr>linesToSend := [''NICK a'']\<rparr>) ''PING'' =
     Inr ((NewSocket (plainConn [] EOF) 512)
            \<lparr>linesToSend := [''NICK a'', ''PING''], lineToSendExists := [15000]\<rparr>, None)"
  using Write_closed_or_appends [of "Close (NewSocket (plainConn [] EOF) 512)" "''PING''"]
    Write_closed_or_appends
      [of "(NewSocket (plainConn [] EOF) 512)\<lparr>linesToSend := [''NICK a'']\<rparr>" "''PING''"]
  by (simp add: NewSocket_def Close_unfold)

text \<open>
  Claim C8. \<^verbatim>\<open>Close\<close> is idempotent: a second call changes nothing, and on a closed
  socket the call changes nothing at all. On a socket that is not closed it sets
  \<open>Closed\<close> and starts one detached sender with a timeout of 200 milliseconds, for
  which it does not wait; it makes no call on the connection.
\<close>

theorem Close_idempotent:
  "Close (Close s) = Close s \<and>
   (Closed s \<longrightarrow> Close s = s) \<and>
   (\<not> Closed s \<longrightarrow>
      Close s = s\<lparr>Closed := True, lineToSendExists := lineToSendExists s @ [200]\<rparr>) \<and>
   conn (Close s) = conn s"
  by (simp add: Close_unfold)

theorem Close_idempotent_witness:
  "Close (Close (NewSocket (plainConn [] EOF) 512)) = Close (NewSocket (plainConn [] EOF) 512) \<and>
   Close (NewSocket (plainConn [] EOF) 512) =
     (NewSocket (plainConn [] EOF) 512)\<lparr>Closed := True, lineToSendExists := [200]\<rparr> \<and>
   calls (conn (Close (Close (NewSocket (plainConn [] EOF) 512)))) = []"
  using Close_idempotent [of "NewSocket (plainConn [] EOF) 512"]
  by (simp add: NewSocket_def plainConn_def Close_unfold)

subsection \<open>Read\<close>

text \<open>
  What \<open>TrimRight\<close> returns does not end in a character of the cutset, and what it
  removed are characters of the cutset only.
\<close>

lemma TrimRight_last:
  "TrimRight s cutset = [] \<or> last (TrimRight s cutset) \<notin> set cutset"
proof (cases "dropWhile (\<lambda>c. c \<in> set cutset) (rev s)")
  case Nil
  then show ?thesis by (simp add: TrimRight_def)
next
  case (Cons x xs)
  then have "x \<notin> set cutset"
    using hd_dropWhile [of "\<lambda>c. c \<in> set cutset" "rev s"] by auto
  with Cons show ?thesis by (simp add: TrimRight_def)
qed

lemma TrimRight_decomp:
  "s = TrimRight s cutset @ rev (takeWhile (\<lambda>c. c \<in> set cutset) (rev s))"
proof -
  let ?P = "\<lambda>c. c \<in> set cutset"
  have "rev (dropWhile ?P (rev s)) @ rev (takeWhile ?P (rev s)) =
      rev (takeWhile ?P (rev s) @ dropWhile ?P (rev s))"
    by (simp only: rev_append)
  also have "\<dots> = s" by simp
  finally show ?thesis by (simp add: TrimRight_def)
qed

lemma TrimRight_removed:
  "set (rev (takeWhile (\<lambda>c. c \<in> set cutset) (rev s))) \<subseteq> set cutset"
  by (auto dest: set_takeWhileD)

lemma TrimSpace_Nil: "TrimSpace [] = []"
  by (simp add: TrimSpace_def)

lemma ReadBytes_eof:
  "LF \<notin> set (unread r) \<Longrightarrow> ReadBytes r LF = (r\<lparr>unread := []\<rparr>, unread r, Some (readErr r))"
  by (simp add: ReadBytes_def)

text \<open>
  Claim C5, amended. When \<^verbatim>\<open>Read\<close> meets the end of the stream with an unterminated
  residual, the socket is marked closed. A residual that is more than white space
  comes back as the line, without its trailing CR and LF, and with no error; a
  residual of white space only is dropped, and \<^verbatim>\<open>Read\<close> returns \<^verbatim>\<open>io.EOF\<close>.
\<close>

theorem Read_eof_residual:
  assumes "\<not> Closed s" and "LF \<notin> set (unread (reader s))" and "readErr (reader s) = EOF"
  shows "(TrimSpace (unread (reader s)) \<noteq> [] \<longrightarrow>
            Read s = (Close (s\<lparr>reader := (reader s)\<lparr>unread := []\<rparr>\<rparr>),
                      TrimRight (unread (reader s)) [CR, LF], None)) \<and>
         (TrimSpace (unread (reader s)) = [] \<longrightarrow>
            Read s = (Close (s\<lparr>reader := (reader s)\<lparr>unread := []\<rparr>\<rparr>), [], Some EOF)) \<and>
         Closed (fst (Read s))"
  using assms by (simp add: Read_def ReadBytes_eof Close_unfold Let_def)

text \<open>A last message \<^verbatim>\<open>QUIT :bye\<close> that ends in CR without LF.\<close>

theorem Read_eof_residual_witness:
  "Read (NewSocket (plainConn (''QUIT :bye'' @ [CR]) EOF) 512) =
     ((NewSocket (plainConn (''QUIT :bye'' @ [CR]) EOF) 512)
        \<lparr>reader := \<lparr>unread = [], readErr = EOF\<rparr>, Closed := True, lineToSendExists := [200]\<rparr>,
      ''QUIT :bye'', None)"
proof -
  let ?s = "NewSocket (plainConn (''QUIT :bye'' @ [CR]) EOF) 512"
  have 1: "\<not> Closed ?s" by (simp add: NewSocket_def)
  have 2: "LF \<notin> set (unread (reader ?s))" by (simp add: NewSocket_def NewReader_def plainConn_def)
  have 3: "readErr (reader ?s) = EOF" by (simp add: NewSocket_def NewReader_def plainConn_def)
  have 4: "TrimSpace (unread (reader ?s)) \<noteq> []"
    by (simp add: NewSocket_def NewReader_def plainConn_def TrimSpace_def spaceRunes_def)
  show ?thesis
    using Read_eof_residual [OF 1 2 3] 4
    by (simp add: NewSocket_def NewReader_def plainConn_def Close_unfold TrimRight_def)
qed

text \<open>
  Claim C5 as stated fails on a residual of one space: it is not empty, and \<^verbatim>\<open>Read\<close>
  returns the empty line with \<^verbatim>\<open>io.EOF\<close>.
\<close>

theorem Read_blank_residual_counterexample:
  "\<not> Closed (NewSocket (plainConn '' '' EOF) 512) \<and>
   unread (reader (NewSocket (plainConn '' '' EOF) 512)) = '' '' \<and>
   readErr (reader (NewSocket (plainConn '' '' EOF) 512)) = EOF \<and>
   snd (Read (NewSocket (plainConn '' '' EOF) 512)) = ([], Some EOF)"
  by (simp add: NewSocket_def NewReader_def plainConn_def Read_def ReadBytes_def TrimSpace_def
      spaceRunes_def)

text \<open>
  Claim C6, amended. On a stream of \<^verbatim>\<open>PING\<close>, LF and then the end, the first \<^verbatim>\<open>Read\<close>
  returns \<^verbatim>\<open>PING\<close> with no error and leaves the socket open: the line ended in LF
  and the end of the stream was not seen. The second \<^verbatim>\<open>Read\<close> returns \<^verbatim>\<open>io.EOF\<close>, and
  after it the socket is closed.
\<close>

theorem Read_PING_then_eof:
  assumes "\<not> Closed s" and "unread (reader s) = ''PING'' @ [LF]" and "readErr (reader s) = EOF"
  shows "snd (Read s) = (''PING'', None) \<and> \<not> Closed (fst (Read s)) \<and>
         snd (Read (fst (Read s))) = ([], Some EOF) \<and> Closed (fst (Read (fst (Read s))))"
proof -
  have 1: "Read s = (s\<lparr>reader := (reader s)\<lparr>unread := []\<rparr>\<rparr>, ''PING'', None)"
    using assms by (simp add: Read_def ReadBytes_def TrimRight_def)
  have 2: "Read (s\<lparr>reader := (reader s)\<lparr>unread := []\<rparr>\<rparr>) =
      (Close (s\<lparr>reader := (reader s)\<lparr>unread := []\<rparr>\<rparr>), [], Some EOF)"
    using assms by (simp add: Read_def ReadBytes_def TrimSpace_Nil)
  show ?thesis using assms by (simp add: 1 2 Close_unfold)
qed

theorem Read_PING_then_eof_witness:
  "snd (Read (NewSocket (plainConn (''PING'' @ [LF]) EOF) 512)) = (''PING'', None) \<and>
   snd (Read (fst (Read (NewSocket (plainConn (''PING'' @ [LF]) EOF) 512)))) = ([], Some EOF) \<and>
   Closed (fst (Read (fst (Read (NewSocket (plainConn (''PING'' @ [LF]) EOF) 512)))))"
proof -
  let ?s = "NewSocket (plainConn (''PING'' @ [LF]) EOF) 512"
  have 1: "\<not> Closed ?s" by (simp add: NewSocket_def)
  have 2: "unread (reader ?s) = ''PING'' @ [LF]" by (simp add: NewSocket_def NewReader_def plainConn_def)
  have 3: "readErr (reader ?s) = EOF" by (simp add: NewSocket_def NewReader_def plainConn_def)
  show ?thesis using Read_PING_then_eof [OF 1 2 3] by simp
qed

text \<open>Claim C6 as stated fails: after the first \<^verbatim>\<open>Read\<close> the socket is not closed.\<close>

theorem Read_PING_counterexample:
  "\<not> Closed (fst (Read (NewSocket (plainConn (''PING'' @ [LF]) EOF) 512)))"
  by (simp add: NewSocket_def NewReader_def plainConn_def Read_def ReadBytes_def)

text \<open>
  Claim C10. When \<^verbatim>\<open>ReadBytes\<close> fails with an error that is not \<^verbatim>\<open>io.EOF\<close>, \<^verbatim>\<open>Read\<close>
  returns that error and the socket stays open. When \<^verbatim>\<open>ReadBytes\<close> succeeds, \<^verbatim>\<open>Read\<close>
  returns its bytes without the CR and LF at their end: the line does not end in CR
  or LF, and the bytes are the line followed by CRs and LFs only.
\<close>

theorem Read_error_or_line:
  "(\<not> Closed s \<and> ReadBytes (reader s) LF = (r, lineBytes, Some e) \<and> e \<noteq> EOF \<longrightarrow>
      Read s = (s\<lparr>reader := r\<rparr>, [], Some e) \<and> \<not> Closed (fst (Read s))) \<and>
   (\<not> Closed s \<and> ReadBytes (reader s) LF = (r, lineBytes, None) \<longrightarrow>
      Read s = (s\<lparr>reader := r\<rparr>, TrimRight lineBytes [CR, LF], None) \<and>
      (TrimRight lineBytes [CR, LF] = [] \<or> last (TrimRight lineBytes [CR, LF]) \<notin> {CR, LF}) \<and>
      (\<exists>t. set t \<subseteq> {CR, LF} \<and> lineBytes = TrimRight lineBytes [CR, LF] @ t))"
proof -
  have "\<exists>t. set t \<subseteq> {CR, LF} \<and> lineBytes = TrimRight lineBytes [CR, LF] @ t"
    using TrimRight_decomp [of lineBytes "[CR, LF]"] TrimRight_removed [of "[CR, LF]" lineBytes]
    by (metis empty_set list.simps(15))
  moreover have "TrimRight lineBytes [CR, LF] = [] \<or> last (TrimRight lineBytes [CR, LF]) \<notin> {CR, LF}"
    using TrimRight_last [of lineBytes "[CR, LF]"] by simp
  ultimately show ?thesis by (simp add: Read_def)
qed

text \<open>A connection reset in the middle of a line, and a line that ends in CR LF.\<close>

theorem Read_error_or_line_witness:
  "Read (NewSocket (plainConn ''PRIVMSG #a'' (OtherError ''connection reset by peer'')) 512) =
     ((NewSocket (plainConn ''PRIVMSG #a'' (OtherError ''connection reset by peer'')) 512)
        \<lparr>reader := \<lparr>unread = [], readErr = OtherError ''connection reset by peer''\<rparr>\<rparr>,
      [], Some (OtherError ''connection reset by peer'')) \<and>
   Read (NewSocket (plainConn (''NICK a'' @ [CR, LF] @ ''USER'') EOF) 512) =
     ((NewSocket (plainConn (''NICK a'' @ [CR, LF] @ ''USER'') EOF) 512)
        \<lparr>reader := \<lparr>unread = ''USER'', readErr = EOF\<rparr>\<rparr>, ''NICK a'', None)"
proof -
  let ?s = "NewSocket (plainConn ''PRIVMSG #a'' (OtherError ''connection reset by peer'')) 512"
  let ?r = "\<lparr>unread = [], readErr = OtherError ''connection reset by peer''\<rparr>"
  let ?t = "NewSocket (plainConn (''NICK a'' @ [CR, LF] @ ''USER'') EOF) 512"
  let ?q = "\<lparr>unread = ''USER'', readErr = EOF\<rparr>"
  have 1: "\<not> Closed ?s \<and> ReadBytes (reader ?s) LF = (?r, ''PRIVMSG #a'', Some (OtherError ''connection reset by peer''))
      \<and> OtherError ''connection reset by peer'' \<noteq> EOF"
    by (simp add: NewSocket_def NewReader_def plainConn_def ReadBytes_def)
  have 2: "\<not> Closed ?t \<and> ReadBytes (reader ?t) LF = (?q, ''NICK a'' @ [CR, LF], None)"
    by (simp add: NewSocket_def NewReader_def plainConn_def ReadBytes_def)
  have 3: "TrimRight (''NICK a'' @ [CR, LF]) [CR, LF] = ''NICK a''"
    by (simp add: TrimRight_def)
  show ?thesis
    using Read_error_or_line [of ?s ?r "''PRIVMSG #a''" "OtherError ''connection reset by peer''"]
      Read_error_or_line [of ?t ?q "''NICK a'' @ [CR, LF]"] 1 2 3
    by simp
qed

subsection \<open>The writer loop\<close>

lemma andThen_Inr [simp]: "andThen (Inr x) k = k x"
  by (simp add: andThen_def)

lemma andThen_Inl [simp]: "andThen (Inl f) k = Inl f"
  by (simp add: andThen_def)

lemma Lock_free [simp]: "\<not> linesToSendMutex s \<Longrightarrow> Lock s = Inr (s\<lparr>linesToSendMutex := True\<rparr>)"
  by (simp add: Lock_def)

lemma Lock_held [simp]: "linesToSendMutex s \<Longrightarrow> Lock s = Inl (LockBlocked, s)"
  by (simp add: Lock_def)

lemma Unlock_held [simp]: "linesToSendMutex s \<Longrightarrow> Unlock s = Inr (s\<lparr>linesToSendMutex := False\<rparr>)"
  by (simp add: Unlock_def)

lemma Unlock_free [simp]: "\<not> linesToSendMutex s \<Longrightarrow> Unlock s = Inl (UnlockOfUnlockedMutex, s)"
  by (simp add: Unlock_def)

lemma unat_add_of_nat:
  fixes q m :: "64 word"
  assumes "unat q + n \<le> unat m"
  shows "unat (q + word_of_nat n) = unat q + n"
proof -
  have m: "unat m < 2 ^ 64" using unsigned_less [of m] by simp
  with assms have n: "n < 2 ^ 64" by simp
  then have "unat (word_of_nat n :: 64 word) = n"
    by (simp add: unat_of_nat)
  moreover from assms m have "unat q + n < 2 ^ LENGTH(64)" by simp
  ultimately show ?thesis
    using unat_add_lem [of q "word_of_nat n"] by simp
qed

lemma checkSendQ_fits:
  "unat q + sum_list (map length ls) \<le> unat (MaxSendQBytes s) \<Longrightarrow>
   checkSendQ ls q s = Inr (q + word_of_nat (sum_list (map length ls)), s)"
proof (induction ls arbitrary: q)
  case Nil
  then show ?case by simp
next
  case (Cons l ls)
  let ?q = "q + word_of_nat (length l)"
  from Cons.prems have le: "unat q + length l \<le> unat (MaxSendQBytes s)" by simp
  then have eq: "unat ?q = unat q + length l" by (rule unat_add_of_nat)
  with le have "\<not> MaxSendQBytes s < ?q" by (simp add: word_less_nat_alt)
  moreover from Cons.prems eq have "unat ?q + sum_list (map length ls) \<le> unat (MaxSendQBytes s)"
    by simp
  then have "checkSendQ ls ?q s = Inr (?q + word_of_nat (sum_list (map length ls)), s)"
    by (rule Cons.IH)
  ultimately show ?case by (simp add: Let_def add.assoc)
qed

lemma checkSendQ_fits_total:
  assumes "sum_list (map length ls) \<le> unat (MaxSendQBytes s)"
  shows "checkSendQ ls 0 s = Inr (word_of_nat (sum_list (map length ls)), s) \<and>
         \<not> MaxSendQBytes s < word_of_nat (sum_list (map length ls))"
proof -
  have "unat (0 + word_of_nat (sum_list (map length ls)) :: 64 word) = unat (0 :: 64 word) + sum_list (map length ls)"
    using assms by (intro unat_add_of_nat) simp
  with assms have "\<not> MaxSendQBytes s < word_of_nat (sum_list (map length ls))"
    by (simp add: word_less_nat_alt)
  moreover have "checkSendQ ls 0 s = Inr (0 + word_of_nat (sum_list (map length ls)), s)"
    using assms by (intro checkSendQ_fits) simp
  ultimately show ?thesis by simp
qed

text \<open>With the mutex held, the check either leaves the socket as it is and finds no breach,
  or finds one and has unlocked the mutex.\<close>

lemma checkSendQ_cases:
  assumes "linesToSendMutex s" and "\<not> MaxSendQBytes s < q"
  shows "\<exists>q'. (checkSendQ ls q s = Inr (q', s) \<and> \<not> MaxSendQBytes s < q') \<or>
              (checkSendQ ls q s = Inr (q', s\<lparr>linesToSendMutex := False\<rparr>) \<and> MaxSendQBytes s < q')"
  using assms
proof (induction ls arbitrary: q)
  case Nil
  then show ?case by auto
next
  case (Cons l ls)
  show ?case
  proof (cases "MaxSendQBytes s < q + word_of_nat (length l)")
    case True
    with Cons.prems show ?thesis by (auto simp add: Let_def)
  next
    case False
    with Cons.IH [OF Cons.prems(1) False] show ?thesis by (simp add: Let_def)
  qed
qed

lemma conn_Write_calls: "calls (fst (conn_Write c data)) = calls c @ [WriteCall data]"
  by (simp add: conn_Write_def split: list.split option.split)

lemma conn_Write_delivered:
  "snd (conn_Write c data) = None \<Longrightarrow> delivered (fst (conn_Write c data)) = delivered c @ data"
  by (simp add: conn_Write_def split: list.splits option.splits)

text \<open>
  The first unlocking is inside the \<^verbatim>\<open>range\<close> loop for every breach, so every breach
  ends in the run-time error, with \<open>FinalData\<close> set and nothing written.
\<close>

lemma breach_faults:
  assumes "\<not> Closed s" and "\<not> linesToSendMutex s"
    and "checkSendQ (linesToSend s) 0 (s\<lparr>linesToSendMutex := True\<rparr>) = Inr (q', s')"
    and "MaxSendQBytes s < q'"
  shows "onLineToSendExists errOut s =
           Inl (UnlockOfUnlockedMutex, s\<lparr>FinalData := sendQExceeded\<rparr>)"
proof -
  let ?s1 = "s\<lparr>linesToSendMutex := True\<rparr>"
  have ne: "linesToSend s \<noteq> []" using assms(3,4) by (cases "linesToSend s") auto
  obtain q where q: "(checkSendQ (linesToSend s) 0 ?s1 = Inr (q, ?s1) \<and> \<not> MaxSendQBytes ?s1 < q) \<or>
              (checkSendQ (linesToSend s) 0 ?s1 = Inr (q, ?s1\<lparr>linesToSendMutex := False\<rparr>) \<and> MaxSendQBytes ?s1 < q)"
    using checkSendQ_cases [of ?s1 0 "linesToSend s"] by auto
  with assms(3,4) have s': "s' = ?s1\<lparr>linesToSendMutex := False\<rparr>" by auto
  with assms ne show ?thesis
    by (simp add: onLineToSendExists_def)
qed

lemma onLineToSendExists_held:
  "linesToSendMutex s \<Longrightarrow> onLineToSendExists errOut s = Inl (LockBlocked, s)"
  by (simp add: onLineToSendExists_def)

text \<open>What an iteration that does not fault leaves.\<close>

lemma onLineToSendExists_Inr:
  assumes "onLineToSendExists errOut s = Inr (fl, errOut', s')"
  shows "Closed s' = Closed s \<and> FinalData s' = FinalData s \<and> \<not> linesToSendMutex s' \<and>
         (\<exists>ws. calls (conn s') = calls (conn s) @ map WriteCall ws)"
proof (cases "linesToSendMutex s")
  case True
  with assms show ?thesis by (simp add: onLineToSendExists_held)
next
  case free: False
  let ?s1 = "s\<lparr>linesToSendMutex := True\<rparr>"
  show ?thesis
  proof (cases "Closed s \<or> linesToSend s = []")
    case True
    with assms free show ?thesis
      by (auto simp add: onLineToSendExists_def split: if_splits)
  next
    case False
    obtain q where q: "(checkSendQ (linesToSend s) 0 ?s1 = Inr (q, ?s1) \<and> \<not> MaxSendQBytes ?s1 < q) \<or>
              (checkSendQ (linesToSend s) 0 ?s1 = Inr (q, ?s1\<lparr>linesToSendMutex := False\<rparr>) \<and> MaxSendQBytes ?s1 < q)"
      using checkSendQ_cases [of ?s1 0 "linesToSend s"] by auto
    then show ?thesis
    proof
      assume a: "checkSendQ (linesToSend s) 0 ?s1 = Inr (q, ?s1) \<and> \<not> MaxSendQBytes ?s1 < q"
      show ?thesis
      proof (cases "concat (linesToSend s) = []")
        case True
        with assms free False a show ?thesis
          by (auto simp add: onLineToSendExists_def)
      next
        case ne: False
        obtain c err where w: "conn_Write (conn s) (concat (linesToSend s)) = (c, err)"
          by (cases "conn_Write (conn s) (concat (linesToSend s))")
        then have "calls c = calls (conn s) @ map WriteCall [concat (linesToSend s)]"
          using conn_Write_calls [of "conn s" "concat (linesToSend s)"] by simp
        then have ex: "\<exists>ws. calls c = calls (conn s) @ map WriteCall ws" by blast
        from assms free False a ne w have "s' = s\<lparr>linesToSendMutex := False, linesToSend := [], conn := c\<rparr>"
          by (auto simp add: onLineToSendExists_def Let_def split: if_splits)
        with ex show ?thesis by simp
      qed
    next
      assume b: "checkSendQ (linesToSend s) 0 ?s1 = Inr (q, ?s1\<lparr>linesToSendMutex := False\<rparr>) \<and> MaxSendQBytes ?s1 < q"
      with assms free False show ?thesis
        by (simp add: onLineToSendExists_def)
    qed
  qed
qed

text \<open>
  Claim C1. The claim: when the sendq check finds a breach, \<open>FinalData\<close> is set, nothing
  of the queue is written, and the loop goes on to close the socket. The code, on the
  queue \<^verbatim>\<open>["hello"]\<close> with a limit of 3 bytes: the \<^verbatim>\<open>range\<close> loop unlocks the mutex
  and leaves, the check after it sets \<open>FinalData\<close> and unlocks the mutex a second
  time, and the run ends in the run-time error. \<open>Closed\<close> is still false and no call
  was made on the connection: the notice is not written and the connection is not
  closed.
\<close>

theorem sendq_breach_faults:
  "RunSocketWriter [CallWrite ''hello'', Wake] (NewSocket (plainConn [] EOF) 3) =
     Faulted UnlockOfUnlockedMutex
       ((NewSocket (plainConn [] EOF) 3)
          \<lparr>linesToSend := [''hello''], lineToSendExists := [15000],
           FinalData := sendQExceeded\<rparr>)"
  by (simp add: RunSocketWriter_def NewSocket_def plainConn_def Write_def
      go_timedFillLineToSendExists_def onLineToSendExists_def Let_def word_less_nat_alt)

text \<open>
  Claim C2. The claim: every iteration locks the mutex once and unlocks it once, and
  never unlocks it while it is not held. The code, on the same queue: the \<^verbatim>\<open>range\<close>
  loop of the check returns with the mutex unlocked, and the iteration then unlocks
  it again.
\<close>

theorem sendq_breach_unlocks_twice:
  "checkSendQ [''hello''] 0
       ((NewSocket (plainConn [] EOF) 3)\<lparr>linesToSend := [''hello''], linesToSendMutex := True\<rparr>) =
     Inr (5, (NewSocket (plainConn [] EOF) 3)\<lparr>linesToSend := [''hello''], linesToSendMutex := False\<rparr>) \<and>
   onLineToSendExists False ((NewSocket (plainConn [] EOF) 3)\<lparr>linesToSend := [''hello'']\<rparr>) =
     Inl (UnlockOfUnlockedMutex,
          (NewSocket (plainConn [] EOF) 3)\<lparr>linesToSend := [''hello''], FinalData := sendQExceeded\<rparr>)"
  by (simp add: NewSocket_def plainConn_def onLineToSendExists_def Let_def word_less_nat_alt)


subsection \<open>Draining the queue\<close>

lemma drain_fits:
  assumes "\<not> Closed s" and "\<not> linesToSendMutex s" and "linesToSend s \<noteq> []"
    and "sum_list (map length (linesToSend s)) \<le> unat (MaxSendQBytes s)"
  shows "onLineToSendExists errOut s =
     (if concat (linesToSend s) = [] then Inr (EndSelect, errOut, s\<lparr>linesToSend := []\<rparr>)
      else Inr (EndSelect, errOut \<or> snd (conn_Write (conn s) (concat (linesToSend s))) \<noteq> None,
                s\<lparr>linesToSend := [],
                  conn := fst (conn_Write (conn s) (concat (linesToSend s)))\<rparr>))"
proof -
  let ?s1 = "s\<lparr>linesToSendMutex := True\<rparr>"
  have "sum_list (map length (linesToSend s)) \<le> unat (MaxSendQBytes ?s1)"
    using assms(4) by simp
  from checkSendQ_fits_total [OF this]
  have chk: "checkSendQ (linesToSend s) 0 ?s1 =
      Inr (word_of_nat (sum_list (map length (linesToSend s))), ?s1)"
    and nb: "\<not> MaxSendQBytes s < word_of_nat (sum_list (map length (linesToSend s)))"
    by simp_all
  have same: "s\<lparr>linesToSendMutex := False\<rparr> = s" using assms(2) by simp
  obtain c err where w: "conn_Write (conn s) (concat (linesToSend s)) = (c, err)"
    by (cases "conn_Write (conn s) (concat (linesToSend s))")
  have "onLineToSendExists errOut s =
     (if concat (linesToSend s) = []
      then Inr (EndSelect, errOut, s\<lparr>linesToSendMutex := False, linesToSend := []\<rparr>)
      else Inr (EndSelect, errOut \<or> err \<noteq> None,
                s\<lparr>linesToSendMutex := False, linesToSend := [], conn := c\<rparr>))"
    using assms(1,2,3) chk nb w
    by (auto simp add: onLineToSendExists_def Let_def)
  with same w show ?thesis by simp
qed

lemma writerLoop_writes:
  "\<not> Closed s \<Longrightarrow> \<not> linesToSendMutex s \<Longrightarrow>
   writerLoop errOut (map CallWrite ds @ es) s =
     writerLoop errOut es
       (s\<lparr>linesToSend := linesToSend s @ ds,
          lineToSendExists := lineToSendExists s @ replicate (length ds) 15000\<rparr>)"
proof (induction ds arbitrary: s)
  case Nil
  then show ?case by simp
next
  case (Cons d ds)
  let ?s1 = "s\<lparr>linesToSend := linesToSend s @ [d],
               lineToSendExists := lineToSendExists s @ [15000]\<rparr>"
  have w: "Write s d = Inr (?s1, None)"
    using Cons.prems
    by (simp add: Write_def Lock_def Unlock_def go_timedFillLineToSendExists_def)
  have "\<not> Closed ?s1" and "\<not> linesToSendMutex ?s1" using Cons.prems by simp_all
  from Cons.IH [OF this] w show ?case
    by simp
qed

text \<open>
  Claim C3, amended. In an iteration that finds the socket open, the queue not empty
  and its bytes within \<open>MaxSendQBytes\<close>, the queue is emptied while the mutex is held
  (in \<open>onLineToSendExists\<close> between \<open>Lock\<close> and \<open>Unlock\<close>), and after the unlocking
  the concatenation of the queued strings, in their order, is written in one call of
  \<^verbatim>\<open>conn.Write\<close>, unless the concatenation is empty: then nothing is written. So
  after the calls \<^verbatim>\<open>Write(d)\<close> for the \<open>d\<close> of \<open>ds\<close> on an open socket with an empty
  queue, the next iteration hands \<open>concat ds\<close> to the connection, and when that
  write succeeds these bytes are the next on the stream.
\<close>

theorem drain_writes_queue_in_order:
  "(\<not> Closed s \<and> \<not> linesToSendMutex s \<and> linesToSend s \<noteq> [] \<and>
    sum_list (map length (linesToSend s)) \<le> unat (MaxSendQBytes s) \<longrightarrow>
      onLineToSendExists errOut s =
        (if concat (linesToSend s) = [] then Inr (EndSelect, errOut, s\<lparr>linesToSend := []\<rparr>)
         else Inr (EndSelect,
                   errOut \<or> snd (conn_Write (conn s) (concat (linesToSend s))) \<noteq> None,
                   s\<lparr>linesToSend := [],
                     conn := fst (conn_Write (conn s) (concat (linesToSend s)))\<rparr>))) \<and>
   calls (fst (conn_Write c data)) = calls c @ [WriteCall data] \<and>
   (\<not> Closed s \<and> \<not> linesToSendMutex s \<and> linesToSend s = [] \<and> concat ds \<noteq> [] \<and>
    sum_list (map length ds) \<le> unat (MaxSendQBytes s) \<and>
    snd (conn_Write (conn s) (concat ds)) = None \<longrightarrow>
      RunSocketWriter (map CallWrite ds @ [Wake]) s =
        Waiting (s\<lparr>linesToSend := [],
                   lineToSendExists := lineToSendExists s @ replicate (length ds) 15000,
                   conn := fst (conn_Write (conn s) (concat ds))\<rparr>) \<and>
      calls (fst (conn_Write (conn s) (concat ds))) = calls (conn s) @ [WriteCall (concat ds)] \<and>
      delivered (fst (conn_Write (conn s) (concat ds))) = delivered (conn s) @ concat ds)"
proof -
  have run: "RunSocketWriter (map CallWrite ds @ [Wake]) s =
        Waiting (s\<lparr>linesToSend := [],
                   lineToSendExists := lineToSendExists s @ replicate (length ds) 15000,
                   conn := fst (conn_Write (conn s) (concat ds))\<rparr>)"
    if h: "\<not> Closed s" "\<not> linesToSendMutex s" "linesToSend s = []" "concat ds \<noteq> []"
      "sum_list (map length ds) \<le> unat (MaxSendQBytes s)"
      "snd (conn_Write (conn s) (concat ds)) = None"
  proof -
    define s1 where "s1 = s\<lparr>linesToSend := ds,
          lineToSendExists := lineToSendExists s @ replicate (length ds) 15000\<rparr>"
    have s1: "\<not> Closed s1" "\<not> linesToSendMutex s1" "linesToSend s1 = ds" "conn s1 = conn s"
      "MaxSendQBytes s1 = MaxSendQBytes s"
      using h(1,2) by (simp_all add: s1_def)
    have 1: "writerLoop False (map CallWrite ds @ [Wake]) s = writerLoop False [Wake] s1"
      using writerLoop_writes [OF h(1,2), of False ds "[Wake]"] h(3) by (simp add: s1_def)
    have ne: "ds \<noteq> []" using h(4) by auto
    have "onLineToSendExists False s1 =
        Inr (EndSelect, False,
             s1\<lparr>linesToSend := [], conn := fst (conn_Write (conn s) (concat ds))\<rparr>)"
      using drain_fits [of s1 False] s1 ne h(4,5,6) by auto
    then have "writerLoop False [Wake] s1 =
        Waiting (s1\<lparr>linesToSend := [], conn := fst (conn_Write (conn s) (concat ds))\<rparr>)"
      using s1(1) by simp
    with 1 show ?thesis by (simp add: RunSocketWriter_def s1_def)
  qed
  show ?thesis
    using drain_fits [of s errOut] run conn_Write_calls conn_Write_delivered [of "conn s" "concat ds"]
    by simp
qed

text \<open>Two lines that were queued, and two calls of \<^verbatim>\<open>Write\<close> followed by a signal.\<close>

theorem drain_writes_queue_in_order_witness:
  "onLineToSendExists False
      ((NewSocket (plainConn [] EOF) 512)\<lparr>linesToSend := [''NICK a'', ''USER b'']\<rparr>) =
     Inr (EndSelect, False,
          (NewSocket (plainConn [] EOF) 512)
            \<lparr>conn := (plainConn [] EOF)\<lparr>calls := [WriteCall ''NICK aUSER b''],
                                       delivered := ''NICK aUSER b''\<rparr>\<rparr>) \<and>
   RunSocketWriter [CallWrite ''PING '', CallWrite ''1'', Wake] (NewSocket (plainConn [] EOF) 512) =
     Waiting ((NewSocket (plainConn [] EOF) 512)
            \<lparr>lineToSendExists := [15000, 15000],
             conn := (plainConn [] EOF)\<lparr>calls := [WriteCall ''PING 1''],
                                       delivered := ''PING 1''\<rparr>\<rparr>)"
proof -
  let ?new = "NewSocket (plainConn [] EOF) 512"
  let ?queued = "?new\<lparr>linesToSend := [''NICK a'', ''USER b'']\<rparr>"
  have a: "\<not> Closed ?queued \<and> \<not> linesToSendMutex ?queued \<and> linesToSend ?queued \<noteq> [] \<and>
    sum_list (map length (linesToSend ?queued)) \<le> unat (MaxSendQBytes ?queued)"
    by (simp add: NewSocket_def)
  have b: "\<not> Closed ?new \<and> \<not> linesToSendMutex ?new \<and> linesToSend ?new = [] \<and>
    concat [''PING '', ''1''] \<noteq> [] \<and>
    sum_list (map length [''PING '', ''1'']) \<le> unat (MaxSendQBytes ?new) \<and>
    snd (conn_Write (conn ?new) (concat [''PING '', ''1''])) = None"
    by (simp add: NewSocket_def plainConn_def conn_Write_def)
  have 1: "onLineToSendExists False ?queued =
        (if concat (linesToSend ?queued) = [] then Inr (EndSelect, False, ?queued\<lparr>linesToSend := []\<rparr>)
         else Inr (EndSelect,
                   False \<or> snd (conn_Write (conn ?queued) (concat (linesToSend ?queued))) \<noteq> None,
                   ?queued\<lparr>linesToSend := [],
                     conn := fst (conn_Write (conn ?queued) (concat (linesToSend ?queued)))\<rparr>))"
    using drain_writes_queue_in_order [of ?queued False "conn ?queued" "[]" "[]"] a by blast
  have 2: "RunSocketWriter (map CallWrite [''PING '', ''1''] @ [Wake]) ?new =
        Waiting (?new\<lparr>linesToSend := [],
                   lineToSendExists := lineToSendExists ?new @ replicate (length [''PING '', ''1'']) 15000,
                   conn := fst (conn_Write (conn ?new) (concat [''PING '', ''1'']))\<rparr>)"
    using drain_writes_queue_in_order [of ?new False "conn ?new" "[]" "[''PING '', ''1'']"] b
    by blast
  have 3: "onLineToSendExists False ?queued =
     Inr (EndSelect, False,
          ?new\<lparr>conn := (plainConn [] EOF)\<lparr>calls := [WriteCall ''NICK aUSER b''],
                                       delivered := ''NICK aUSER b''\<rparr>\<rparr>)"
    unfolding 1 by (simp add: NewSocket_def plainConn_def conn_Write_def)
  have 4: "RunSocketWriter [CallWrite ''PING '', CallWrite ''1'', Wake] ?new =
     Waiting (?new\<lparr>lineToSendExists := [15000, 15000],
             conn := (plainConn [] EOF)\<lparr>calls := [WriteCall ''PING 1''],
                                       delivered := ''PING 1''\<rparr>\<rparr>)"
    using 2 by (simp add: NewSocket_def plainConn_def conn_Write_def)
  from 3 4 show ?thesis by (rule conjI)
qed

text \<open>
  Claim C3 as stated fails when the queue holds the empty string only: the socket is
  open and the limit is kept, the queue is emptied, and no write is made.
\<close>

theorem drain_empty_payload_counterexample:
  "\<not> Closed ((NewSocket (plainConn [] EOF) 512)\<lparr>linesToSend := [[]]\<rparr>) \<and>
   sum_list (map length (linesToSend ((NewSocket (plainConn [] EOF) 512)\<lparr>linesToSend := [[]]\<rparr>)))
     \<le> unat (MaxSendQBytes ((NewSocket (plainConn [] EOF) 512)\<lparr>linesToSend := [[]]\<rparr>)) \<and>
   onLineToSendExists False ((NewSocket (plainConn [] EOF) 512)\<lparr>linesToSend := [[]]\<rparr>) =
     Inr (EndSelect, False, NewSocket (plainConn [] EOF) 512) \<and>
   calls (conn (NewSocket (plainConn [] EOF) 512)) = []"
  by (simp add: NewSocket_def plainConn_def onLineToSendExists_def Let_def)

subsection \<open>The end of the writer loop\<close>

lemma teardown_facts:
  "Closed (teardown s) \<and> FinalData (teardown s) = FinalData s \<and>
   calls (conn (teardown s)) =
     calls (conn s) @ (if FinalData s = [] then [] else [WriteCall (FinalData s)]) @ [CloseCall]"
  by (simp add: teardown_def Let_def conn_Close_def conn_Write_calls)

lemma Write_conn: "Write s data = Inr (t, e) \<Longrightarrow> conn t = conn s \<and> FinalData t = FinalData s"
  by (auto simp add: Write_def Lock_def Unlock_def go_timedFillLineToSendExists_def
      split: if_splits)

lemma Close_conn: "conn (Close s) = conn s \<and> FinalData (Close s) = FinalData s"
  by (simp add: Close_unfold)

lemma Read_conn: "conn (fst (Read s)) = conn s \<and> FinalData (fst (Read s)) = FinalData s"
  by (simp add: Read_def Let_def Close_unfold split: prod.split)

lemma writerLoop_Returned:
  "writerLoop errOut es s = Returned s' \<Longrightarrow>
   Closed s' \<and>
   (\<exists>ws. calls (conn s') =
      calls (conn s) @ map WriteCall ws
        @ (if FinalData s' = [] then [] else [WriteCall (FinalData s')]) @ [CloseCall])"
proof (induction es arbitrary: errOut s)
  case Nil
  then show ?case by simp
next
  case (Cons ev es)
  show ?case
  proof (cases ev)
    case Wake
    show ?thesis
    proof (cases "onLineToSendExists errOut s")
      case (Inl f)
      with Cons.prems Wake show ?thesis by (simp split: prod.splits)
    next
      case (Inr r)
      obtain fl eo s1 where r: "r = (fl, eo, s1)" by (cases r)
      with Inr have step: "onLineToSendExists errOut s = Inr (fl, eo, s1)" by simp
      from onLineToSendExists_Inr [OF step]
      obtain ws1 where ws1: "calls (conn s1) = calls (conn s) @ map WriteCall ws1"
        by blast
      show ?thesis
      proof (cases "fl = EndSelect \<and> (eo \<or> Closed s1)")
        case True
        with Cons.prems Wake step have "s' = teardown s1" by auto
        with ws1 teardown_facts [of s1] show ?thesis by auto
      next
        case False
        with Cons.prems Wake step have "writerLoop eo es s1 = Returned s'"
          by (cases fl) auto
        from Cons.IH [OF this] obtain ws where
          "Closed s'" and
          "calls (conn s') = calls (conn s1) @ map WriteCall ws
             @ (if FinalData s' = [] then [] else [WriteCall (FinalData s')]) @ [CloseCall]"
          by blast
        with ws1 have "Closed s' \<and> calls (conn s') = calls (conn s) @ map WriteCall (ws1 @ ws)
             @ (if FinalData s' = [] then [] else [WriteCall (FinalData s')]) @ [CloseCall]"
          by simp
        then show ?thesis by blast
      qed
    qed
  next
    case (CallWrite d)
    show ?thesis
    proof (cases "Write s d")
      case (Inl f)
      with Cons.prems CallWrite show ?thesis by (simp split: prod.splits)
    next
      case (Inr r)
      obtain s1 e where "r = (s1, e)" by (cases r)
      with Inr have w: "Write s d = Inr (s1, e)" by simp
      with Cons.prems CallWrite have "writerLoop errOut es s1 = Returned s'" by simp
      from Cons.IH [OF this] Write_conn [OF w] show ?thesis by simp
    qed
  next
    case CallClose
    with Cons.prems have "writerLoop errOut es (Close s) = Returned s'" by simp
    from Cons.IH [OF this] Close_conn [of s] show ?thesis by simp
  next
    case CallRead
    with Cons.prems have "writerLoop errOut es (fst (Read s)) = Returned s'" by simp
    from Cons.IH [OF this] Read_conn [of s] show ?thesis by simp
  qed
qed

lemma count_closes:
  "count_list (xs @ map WriteCall ws @ (if fd = [] then [] else [WriteCall fd]) @ [CloseCall])
     CloseCall = count_list xs CloseCall + 1"
  by (induction ws) (auto simp add: count_list_append)

lemma closed_wake_returns:
  "Closed s \<Longrightarrow> \<not> linesToSendMutex s \<Longrightarrow>
   writerLoop errOut (Wake # es) s = Returned (teardown (s\<lparr>linesToSendMutex := False\<rparr>))"
  by (simp add: onLineToSendExists_def)

text \<open>
  The runs in which \<^verbatim>\<open>RunSocketWriter\<close> returns: \<open>Closed\<close> is true, and the calls made
  on the connection are writes of queued data, then the write of \<open>FinalData\<close> if
  that is not empty (whatever this write returns), then one \<^verbatim>\<open>Close\<close>, the last
  call: the run adds exactly one \<^verbatim>\<open>Close\<close>. On a closed socket the next signal makes
  the function return. \<^verbatim>\<open>Close\<close>, \<^verbatim>\<open>Write\<close> and \<^verbatim>\<open>Read\<close> make no call on the
  connection.
\<close>

theorem RunSocketWriter_teardown:
  "(RunSocketWriter es s = Returned s' \<longrightarrow>
      Closed s' \<and>
      (\<exists>ws. calls (conn s') =
         calls (conn s) @ map WriteCall ws
           @ (if FinalData s' = [] then [] else [WriteCall (FinalData s')]) @ [CloseCall]) \<and>
      count_list (calls (conn s')) CloseCall = count_list (calls (conn s)) CloseCall + 1) \<and>
   (Closed s \<and> \<not> linesToSendMutex s \<longrightarrow>
      RunSocketWriter (Wake # es) s = Returned (teardown s)) \<and>
   conn (Close s) = conn s \<and>
   (Write s data = Inr (t, e) \<longrightarrow> conn t = conn s) \<and>
   conn (fst (Read s)) = conn s"
proof -
  have "Closed s' \<and>
      (\<exists>ws. calls (conn s') =
         calls (conn s) @ map WriteCall ws
           @ (if FinalData s' = [] then [] else [WriteCall (FinalData s')]) @ [CloseCall]) \<and>
      count_list (calls (conn s')) CloseCall = count_list (calls (conn s)) CloseCall + 1"
    if "RunSocketWriter es s = Returned s'"
  proof -
    from that have "writerLoop False es s = Returned s'" by (simp add: RunSocketWriter_def)
    from writerLoop_Returned [OF this] obtain ws where
      c: "Closed s'" and
      w: "calls (conn s') = calls (conn s) @ map WriteCall ws
           @ (if FinalData s' = [] then [] else [WriteCall (FinalData s')]) @ [CloseCall]"
      by blast
    from w have "count_list (calls (conn s')) CloseCall = count_list (calls (conn s)) CloseCall + 1"
      by (simp only: count_closes)
    with c w show ?thesis by blast
  qed
  moreover have "RunSocketWriter (Wake # es) s = Returned (teardown s)"
    if "Closed s \<and> \<not> linesToSendMutex s"
  proof -
    from that have "s\<lparr>linesToSendMutex := False\<rparr> = s" by simp
    with that closed_wake_returns [of s False es] show ?thesis
      by (simp add: RunSocketWriter_def)
  qed
  ultimately show ?thesis
    using Write_conn [of s data t e] Close_conn [of s] Read_conn [of s] by blast
qed

text \<open>
  A run that writes a line, is closed and returns, and a run on a closed socket with
  \<open>FinalData\<close> set.
\<close>

theorem RunSocketWriter_teardown_witness:
  "RunSocketWriter [CallWrite ''NICK a'', Wake, CallClose, Wake] (NewSocket (plainConn [] EOF) 512) =
     Returned ((NewSocket (plainConn [] EOF) 512)
       \<lparr>Closed := True, lineToSendExists := [15000, 200],
        conn := (plainConn [] EOF)\<lparr>calls := [WriteCall ''NICK a'', CloseCall],
                                   delivered := ''NICK a''\<rparr>\<rparr>) \<and>
   count_list [WriteCall ''NICK a'', CloseCall] CloseCall = 1 \<and>
   RunSocketWriter [Wake]
       ((NewSocket (plainConn [] EOF) 512)\<lparr>Closed := True, FinalData := ''ERROR :bye''\<rparr>) =
     Returned ((NewSocket (plainConn [] EOF) 512)
       \<lparr>Closed := True, FinalData := ''ERROR :bye'',
        conn := (plainConn [] EOF)\<lparr>calls := [WriteCall ''ERROR :bye'', CloseCall],
                                   delivered := ''ERROR :bye''\<rparr>\<rparr>)"
proof -
  let ?s = "NewSocket (plainConn [] EOF) 512"
  let ?es = "[CallWrite ''NICK a'', Wake, CallClose, Wake]"
  let ?s' = "?s\<lparr>Closed := True, lineToSendExists := [15000, 200],
        conn := (plainConn [] EOF)\<lparr>calls := [WriteCall ''NICK a'', CloseCall],
                                   delivered := ''NICK a''\<rparr>\<rparr>"
  let ?t = "?s\<lparr>Closed := True, FinalData := ''ERROR :bye''\<rparr>"
  have run: "RunSocketWriter ?es ?s = Returned ?s'"
    by (simp add: RunSocketWriter_def NewSocket_def plainConn_def Write_def Close_unfold
        go_timedFillLineToSendExists_def onLineToSendExists_def Let_def conn_Write_def
        teardown_def conn_Close_def)
  have t: "Closed ?t \<and> \<not> linesToSendMutex ?t" by (simp add: NewSocket_def)
  have td: "teardown ?t = ?s\<lparr>Closed := True, FinalData := ''ERROR :bye'',
        conn := (plainConn [] EOF)\<lparr>calls := [WriteCall ''ERROR :bye'', CloseCall],
                                   delivered := ''ERROR :bye''\<rparr>\<rparr>"
    by (simp add: teardown_def NewSocket_def plainConn_def conn_Write_def conn_Close_def Let_def)
  from RunSocketWriter_teardown [of ?es ?s ?s' "[]" ?s None] run
  have "count_list (calls (conn ?s')) CloseCall = count_list (calls (conn ?s)) CloseCall + 1"
    by blast
  then have cnt: "count_list [WriteCall ''NICK a'', CloseCall] CloseCall = 1"
    by (simp add: NewSocket_def plainConn_def)
  from RunSocketWriter_teardown [of "[]" ?t ?t "[]" ?t None] t
  have "RunSocketWriter [Wake] ?t = Returned (teardown ?t)" by blast
  with td run cnt show ?thesis by simp
qed

text \<open>
  Claim C9. The claim: on every terminal path of the writer loop \<open>Closed\<close> is true
  at the end, \<open>FinalData\<close>, if not empty, is written before the connection is
  released, and the connection is closed exactly once. The breach of the sendq is
  one of the terminal paths, and the only one that sets \<open>FinalData\<close>. The code, after
  \<^verbatim>\<open>Write("NICK a")\<close> and \<^verbatim>\<open>Write("USER b")\<close> with a limit of 8 bytes: the run ends
  in the run-time error of the second unlocking, with \<open>Closed\<close> false, \<open>FinalData\<close>
  set and not written, and no \<^verbatim>\<open>Close\<close> of the connection.
\<close>

theorem sendq_breach_skips_teardown:
  "RunSocketWriter [CallWrite ''NICK a'', CallWrite ''USER b'', Wake]
       (NewSocket (plainConn [] EOF) 8) =
     Faulted UnlockOfUnlockedMutex
       ((NewSocket (plainConn [] EOF) 8)
          \<lparr>linesToSend := [''NICK a'', ''USER b''], lineToSendExists := [15000, 15000],
           FinalData := sendQExceeded\<rparr>) \<and>
   \<not> Closed ((NewSocket (plainConn [] EOF) 8)
          \<lparr>linesToSend := [''NICK a'', ''USER b''], lineToSendExists := [15000, 15000],
           FinalData := sendQExceeded\<rparr>) \<and>
   count_list (calls (conn ((NewSocket (plainConn [] EOF) 8)
          \<lparr>linesToSend := [''NICK a'', ''USER b''], lineToSendExists := [15000, 15000],
           FinalData := sendQExceeded\<rparr>))) CloseCall = 0 \<and>
   delivered (conn ((NewSocket (plainConn [] EOF) 8)
          \<lparr>linesToSend := [''NICK a'', ''USER b''], lineToSendExists := [15000, 15000],
           FinalData := sendQExceeded\<rparr>)) = []"
  by (simp add: RunSocketWriter_def NewSocket_def plainConn_def Write_def
      go_timedFillLineToSendExists_def onLineToSendExists_def Let_def word_less_nat_alt)

subsection \<open>CertFP\<close>

text \<open>The digest has 32 bytes, and the encoding two lowercase hex digits for each.\<close>

lemma length_digest: "length (digest H) = 32"
  by (cases H rule: digest.cases) (simp add: bytes32_def)

lemma length_Sum256: "length (Sum256 m) = 32"
  by (simp only: Sum256_def length_digest)

lemma length_EncodeToString: "length (EncodeToString src) = 2 * length src"
  by (induction src) (simp_all add: EncodeToString_def)

lemma high_nibble: "unat (drop_bit 4 (v :: byte)) < 16"
proof -
  have "unat v < 2 ^ 8" using unsigned_less [of v] by simp
  then have "unat v div 2 ^ 4 < 16" by simp
  moreover have "unat (drop_bit 4 v) = drop_bit 4 (unat v)"
    by (rule unat_drop_bit_eq)
  moreover have "drop_bit 4 (unat v) = unat v div 2 ^ 4"
    by (rule drop_bit_eq_div)
  ultimately show ?thesis by (simp only:)
qed

lemma low_nibble: "unat ((v :: byte) AND 0x0F) < 16"
proof -
  have "unat (v AND 0x0F) \<le> unat (0x0F :: byte)"
    by (rule word_and_le1 [THEN word_le_nat_alt [THEN iffD1]])
  then show ?thesis by simp
qed

lemma hextable_nth: "n < 16 \<Longrightarrow> hextable ! n \<in> set hextable"
  by (rule nth_mem) (simp add: hextable_def)

lemma set_EncodeToString: "set (EncodeToString src) \<subseteq> set hextable"
proof (induction src)
  case Nil
  show ?case by (simp add: EncodeToString_def)
next
  case (Cons v src)
  have "EncodeToString (v # src) =
      [hextable ! unat (drop_bit 4 v), hextable ! unat (v AND 0x0F)] @ EncodeToString src"
    by (simp add: EncodeToString_def)
  with Cons hextable_nth [OF high_nibble [of v]] hextable_nth [OF low_nibble [of v]]
  show ?case by (simp only: set_append set_simps) blast
qed

text \<open>
  Claim C7. \<^verbatim>\<open>CertFP\<close> returns \<open>errNotTLS\<close> and the empty string on a connection that
  is not TLS; the error of the handshake when it fails; \<open>errNoPeerCerts\<close> when the
  handshake succeeds and the peer presented no certificate; and otherwise, with no
  error, the hex encoding of the SHA-256 digest of the raw bytes of the first
  certificate, which has 64 characters, all of them digits or letters \<^verbatim>\<open>a\<close> to \<^verbatim>\<open>f\<close>.
\<close>

theorem CertFP_cases:
  "(tls (conn s) = None \<longrightarrow> CertFP s = ([], Some errNotTLS)) \<and>
   (tls (conn s) = Some t \<and> Handshake t = Some e \<longrightarrow> CertFP s = ([], Some e)) \<and>
   (tls (conn s) = Some t \<and> Handshake t = None \<and> PeerCertificates t = [] \<longrightarrow>
      CertFP s = ([], Some errNoPeerCerts)) \<and>
   (tls (conn s) = Some t \<and> Handshake t = None \<and> PeerCertificates t = leaf # rest \<longrightarrow>
      CertFP s = (EncodeToString (Sum256 (Raw leaf)), None) \<and>
      length (fst (CertFP s)) = 64 \<and>
      set (fst (CertFP s)) \<subseteq> set ''0123456789abcdef'')"
proof -
  have len: "length (EncodeToString (Sum256 (Raw leaf))) = 64"
    by (simp add: length_EncodeToString length_Sum256)
  have hex: "set (EncodeToString (Sum256 (Raw leaf))) \<subseteq> set ''0123456789abcdef''"
    using set_EncodeToString [of "Sum256 (Raw leaf)"] by (simp only: hextable_def)
  have 1: "CertFP s = ([], Some errNotTLS)" if "tls (conn s) = None"
    using that by (simp add: CertFP_def)
  have 2: "CertFP s = ([], Some e)" if "tls (conn s) = Some t" "Handshake t = Some e"
    using that by (simp add: CertFP_def)
  have 3: "CertFP s = ([], Some errNoPeerCerts)"
    if "tls (conn s) = Some t" "Handshake t = None" "PeerCertificates t = []"
    using that by (simp add: CertFP_def)
  have 4: "CertFP s = (EncodeToString (Sum256 (Raw leaf)), None)"
    if "tls (conn s) = Some t" "Handshake t = None" "PeerCertificates t = leaf # rest"
    using that by (simp add: CertFP_def Let_def)
  from 4 len hex have 5: "CertFP s = (EncodeToString (Sum256 (Raw leaf)), None) \<and>
      length (fst (CertFP s)) = 64 \<and> set (fst (CertFP s)) \<subseteq> set ''0123456789abcdef''"
    if "tls (conn s) = Some t" "Handshake t = None" "PeerCertificates t = leaf # rest"
    using that by (simp only: fst_conv)
  from 1 2 3 5 show ?thesis by blast
qed

text \<open>
  A plain connection, a handshake that fails, a peer without a certificate, and a
  peer whose certificate begins \<^verbatim>\<open>30 82 01\<close>.
\<close>

theorem CertFP_cases_witness:
  "CertFP (NewSocket (plainConn [] EOF) 512) = ([], Some errNotTLS) \<and>
   CertFP (NewSocket (tlsConn (Some (OtherError ''tls: bad certificate'')) []) 512) =
     ([], Some (OtherError ''tls: bad certificate'')) \<and>
   CertFP (NewSocket (tlsConn None []) 512) = ([], Some errNoPeerCerts) \<and>
   CertFP (NewSocket (tlsConn None [\<lparr>Raw = [0x30, 0x82, 0x01]\<rparr>]) 512) =
     (EncodeToString (Sum256 [0x30, 0x82, 0x01]), None) \<and>
   length (fst (CertFP (NewSocket (tlsConn None [\<lparr>Raw = [0x30, 0x82, 0x01]\<rparr>]) 512))) = 64"
proof -
  let ?plain = "NewSocket (plainConn [] EOF) 512"
  let ?e = "OtherError ''tls: bad certificate''"
  let ?badtls = "\<lparr>Handshake = Some ?e, PeerCertificates = []\<rparr>"
  let ?bad = "NewSocket (tlsConn (Some ?e) []) 512"
  let ?anontls = "\<lparr>Handshake = None, PeerCertificates = []\<rparr>"
  let ?anon = "NewSocket (tlsConn None []) 512"
  let ?leaf = "\<lparr>Raw = [0x30, 0x82, 0x01]\<rparr>"
  let ?certtls = "\<lparr>Handshake = None, PeerCertificates = [?leaf]\<rparr>"
  let ?cert = "NewSocket (tlsConn None [?leaf]) 512"
  have p: "tls (conn ?plain) = None" by (simp add: NewSocket_def plainConn_def)
  have b: "tls (conn ?bad) = Some ?badtls \<and> Handshake ?badtls = Some ?e"
    by (simp add: NewSocket_def tlsConn_def)
  have n: "tls (conn ?anon) = Some ?anontls \<and> Handshake ?anontls = None \<and>
      PeerCertificates ?anontls = []"
    by (simp add: NewSocket_def tlsConn_def)
  have c: "tls (conn ?cert) = Some ?certtls \<and> Handshake ?certtls = None \<and>
      PeerCertificates ?certtls = ?leaf # []"
    by (simp add: NewSocket_def tlsConn_def)
  have 1: "CertFP ?plain = ([], Some errNotTLS)"
    using CertFP_cases [of ?plain, THEN conjunct1] p by (rule mp)
  have 2: "CertFP ?bad = ([], Some ?e)"
    using CertFP_cases [of ?bad ?badtls ?e, THEN conjunct2, THEN conjunct1] b by (rule mp)
  have 3: "CertFP ?anon = ([], Some errNoPeerCerts)"
    using CertFP_cases [of ?anon ?anontls, THEN conjunct2, THEN conjunct2, THEN conjunct1] n
    by (rule mp)
  have 4: "CertFP ?cert = (EncodeToString (Sum256 (Raw ?leaf)), None) \<and>
      length (fst (CertFP ?cert)) = 64 \<and>
      set (fst (CertFP ?cert)) \<subseteq> set ''0123456789abcdef''"
    using CertFP_cases [of ?cert ?certtls _ ?leaf "[]", THEN conjunct2, THEN conjunct2,
        THEN conjunct2] c
    by (rule mp)
  have raw: "Raw ?leaf = [0x30, 0x82, 0x01]" by simp
  from 4 have "CertFP ?cert = (EncodeToString (Sum256 [0x30, 0x82, 0x01]), None)"
    by (simp only: raw)
  moreover from 4 have "length (fst (CertFP ?cert)) = 64" by (elim conjE)
  ultimately show ?thesis using 1 2 3 by (intro conjI)
qed

end
